theory Spec2Isabelle
  imports Main "HOL-Library.Word"
begin

section \<open>JavaScript strings\<close>

text \<open>
  A JavaScript string is a sequence of UTF-16 code units. Indices are JavaScript numbers;
  every index the routine computes is an integer, so they are modelled as \<open>int\<close>
  (\<open>indexOf\<close> answers \<open>-1\<close> when there is no occurrence).
\<close>

type_synonym jschar = "16 word"
type_synonym jsstring = "jschar list"

text \<open>
  The code units matched by the regular expression \<^verbatim>\<open>/\s/\<close>: the WhiteSpace and
  LineTerminator productions of ECMAScript (TAB, LF, VT, FF, CR, SP, NBSP, the Unicode
  space separators, LS, PS and the byte order mark).
\<close>

definition isWhiteSpace :: "jschar \<Rightarrow> bool" where
  "isWhiteSpace c \<longleftrightarrow>
     c = 0x09 \<or> c = 0x0A \<or> c = 0x0B \<or> c = 0x0C \<or> c = 0x0D \<or> c = 0x20 \<or> c = 0xA0 \<or>
     c = 0x1680 \<or> (0x2000 \<le> c \<and> c \<le> 0x200A) \<or> c = 0x2028 \<or> c = 0x2029 \<or>
     c = 0x202F \<or> c = 0x205F \<or> c = 0x3000 \<or> c = 0xFEFF"

text \<open>\<^verbatim>\<open>text[i]\<close>: the code unit at index \<open>i\<close>, or \<^verbatim>\<open>undefined\<close> (\<open>None\<close>) out of range.\<close>

definition charAt :: "jsstring \<Rightarrow> int \<Rightarrow> jschar option" where
  "charAt t i = (if 0 \<le> i \<and> i < int (length t) then Some (t ! nat i) else None)"

text \<open>
  \<^verbatim>\<open>/\s/.test(x)\<close>: the argument is converted to a string; \<^verbatim>\<open>undefined\<close> becomes
  the nine letters of its name, none of them white space.
\<close>

definition testWhiteSpace :: "jschar option \<Rightarrow> bool" where
  "testWhiteSpace x = (case x of None \<Rightarrow> False | Some c \<Rightarrow> isWhiteSpace c)"

text \<open>\<^verbatim>\<open>t.indexOf(s)\<close>: the least index at which \<open>s\<close> occurs in \<open>t\<close>, or \<open>-1\<close>.\<close>

fun indexOf :: "jsstring \<Rightarrow> jsstring \<Rightarrow> int" where
  "indexOf [] s = (if s = [] then 0 else - 1)"
| "indexOf (c # cs) s =
     (if take (length s) (c # cs) = s then 0
      else (let r = indexOf cs s in if r < 0 then - 1 else r + 1))"

text \<open>
  \<^verbatim>\<open>t.slice(i)\<close> with its one argument: a negative start counts from the end, and the
  start is clamped to the string.
\<close>

definition sliceFrom :: "jsstring \<Rightarrow> int \<Rightarrow> jsstring" where
  "sliceFrom t i =
     (if i < 0 then drop (nat (max (int (length t) + i) 0)) t else drop (nat i) t)"

text \<open>
  \<^verbatim>\<open>t.substring(a, b)\<close>: both arguments are clamped to \<open>[0, length]\<close> and swapped when
  the first exceeds the second.
\<close>

definition substring :: "jsstring \<Rightarrow> int \<Rightarrow> int \<Rightarrow> jsstring" where
  "substring t a b =
     (let len = int (length t);
          finalStart = min (max a 0) len;
          finalEnd = min (max b 0) len;
          from = min finalStart finalEnd;
          to = max finalStart finalEnd
      in take (nat (to - from)) (drop (nat from) t))"

section \<open>Regular expressions\<close>

text \<open>
  The routine receives two \<^verbatim>\<open>RegExp\<close> objects and only ever calls \<^verbatim>\<open>text.match(re)\<close>
  on them. A regular expression is therefore modelled by what that call answers for a
  text: \<^verbatim>\<open>null\<close> (\<open>None\<close>) or a match, of which \<open>matched\<close> is element \<open>0\<close> (the matched
  text) and \<open>matchIndex\<close> its \<^verbatim>\<open>index\<close> property (where the match starts). The routine
  reads element \<open>0\<close> only. The answer is a function of the text: this covers every
  regular expression but one with the sticky flag, whose search starts at the
  \<^verbatim>\<open>lastIndex\<close> it keeps between calls.
\<close>

record rmatch =
  matched :: jsstring
  matchIndex :: int

type_synonym regexp = "jsstring \<Rightarrow> rmatch option"

text \<open>A match reported by the engine is an occurrence of the matched text at its index.\<close>

definition matchAt :: "jsstring \<Rightarrow> rmatch \<Rightarrow> bool" where
  "matchAt t m \<longleftrightarrow>
     0 \<le> matchIndex m \<and> matchIndex m + int (length (matched m)) \<le> int (length t) \<and>
     take (length (matched m)) (drop (nat (matchIndex m)) t) = matched m"

text \<open>
  Three families of concrete regular expressions, for a literal text \<open>lit\<close> (every
  character escaped): \<^verbatim>\<open>/lit/\<close>, the end-anchored \<^verbatim>\<open>/lit$/\<close>, and \<^verbatim>\<open>/(?<=c)lit/\<close> with
  a one-character lookbehind. Each answers the leftmost position at which the expression
  matches.
\<close>

definition occursAt :: "jsstring \<Rightarrow> jsstring \<Rightarrow> nat \<Rightarrow> bool" where
  "occursAt t lit i \<longleftrightarrow> take (length lit) (drop i t) = lit"

definition leftmost :: "jsstring \<Rightarrow> jsstring \<Rightarrow> (nat \<Rightarrow> bool) \<Rightarrow> rmatch option" where
  "leftmost t lit ok =
     map_option (\<lambda>i. \<lparr>matched = lit, matchIndex = int i\<rparr>)
       (find (\<lambda>i. occursAt t lit i \<and> ok i) [0..<Suc (length t)])"

definition literal :: "jsstring \<Rightarrow> regexp" where
  "literal lit t = leftmost t lit (\<lambda>i. True)"

definition literalAtEnd :: "jsstring \<Rightarrow> regexp" where
  "literalAtEnd lit t = leftmost t lit (\<lambda>i. i + length lit = length t)"

definition literalAfter :: "jschar \<Rightarrow> jsstring \<Rightarrow> regexp" where
  "literalAfter c lit t = leftmost t lit (\<lambda>i. 0 < i \<and> t ! (i - 1) = c)"

section \<open>The host's rich text values\<close>

text \<open>
  Modelled from the spec: the spreadsheet host's \<^verbatim>\<open>RichTextValue\<close>, its runs and its
  builder, which are not part of the repository. A StyledText pairs a text with an
  ordered sequence of StyleRuns; a StyleRun is a half-open range \<open>[start, end)\<close> with an
  opaque style descriptor and an optional link target. The builder starts from a text
  and collects runs: a \<^verbatim>\<open>setTextStyle\<close> call emits a new run on its range, and a
  \<^verbatim>\<open>setLinkUrl\<close> call on the range just styled gives that run its link.
\<close>

record 'st text_run =
  startIndex :: int
  endIndex :: int
  textStyle :: 'st
  linkUrl :: "jsstring option"

record 'st rich_text =
  getText :: jsstring
  getRuns :: "'st text_run list"

record 'st builder =
  b_text :: jsstring
  b_runs :: "'st text_run list"

definition newRichTextValue :: "'st builder" where
  "newRichTextValue = \<lparr>b_text = [], b_runs = []\<rparr>"

definition setText :: "jsstring \<Rightarrow> 'st builder \<Rightarrow> 'st builder" where
  "setText t b = b\<lparr>b_text := t\<rparr>"

definition setTextStyle :: "int \<Rightarrow> int \<Rightarrow> 'st \<Rightarrow> 'st builder \<Rightarrow> 'st builder" where
  "setTextStyle s e st b =
     b\<lparr>b_runs := b_runs b @
        [\<lparr>startIndex = s, endIndex = e, textStyle = st, linkUrl = None\<rparr>]\<rparr>"

definition setLinkUrl :: "int \<Rightarrow> int \<Rightarrow> jsstring \<Rightarrow> 'st builder \<Rightarrow> 'st builder" where
  "setLinkUrl s e l b =
     (case rev (b_runs b) of
        [] \<Rightarrow> b
      | r # rs \<Rightarrow>
          if startIndex r = s \<and> endIndex r = e
          then b\<lparr>b_runs := rev (r\<lparr>linkUrl := Some l\<rparr> # rs)\<rparr>
          else b)"

definition build :: "'st builder \<Rightarrow> 'st rich_text" where
  "build b = \<lparr>getText = b_text b, getRuns = b_runs b\<rparr>"

section \<open>Objects and the console\<close>

text \<open>
  Rich text values are objects: the routine receives a reference and returns a reference.
  The store is the list of the objects allocated so far, a reference is a position in it,
  and \<^verbatim>\<open>build()\<close> allocates at the end. Each \<^verbatim>\<open>console.log\<close> call appends one line to the
  console; a line is kept as the message it is with the values it interpolates (the
  printed form of the regular expression apart).
\<close>

type_synonym ref = nat

datatype log_line =
    SearchingStart
  | SearchingStop
  | MatchResult "jsstring option"
  | RawSlice int int
  | EmptyAfterTrim
  | FinalSlice int int

record 'st state =
  heap :: "'st rich_text list"
  console :: "log_line list"

datatype js_error = TypeError

definition deref :: "'st state \<Rightarrow> ref \<Rightarrow> 'st rich_text option" where
  "deref s r = (if r < length (heap s) then Some (heap s ! r) else None)"

definition console_log :: "log_line \<Rightarrow> 'st state \<Rightarrow> 'st state" where
  "console_log l s = s\<lparr>console := console s @ [l]\<rparr>"

definition alloc :: "'st rich_text \<Rightarrow> 'st state \<Rightarrow> ref \<times> 'st state" where
  "alloc v s = (length (heap s), s\<lparr>heap := heap s @ [v]\<rparr>)"

section \<open>extractRichTextSection_\<close>

text \<open>
  The routine is \<^verbatim>\<open>extractRichTextSection_\<close> of the source; a name cannot end in an
  underscore here, so the constant is \<open>extractRichTextSection\<close>. First the two loops that
  trim white space by moving the indices towards each other.
\<close>

function trimStart :: "jsstring \<Rightarrow> int \<Rightarrow> int \<Rightarrow> int" where
  "trimStart text startIdx endIdx =
     (if startIdx < endIdx \<and> testWhiteSpace (charAt text startIdx)
      then trimStart text (startIdx + 1) endIdx
      else startIdx)"
  by pat_completeness auto
termination
  by (relation "measure (\<lambda>(text, startIdx, endIdx). nat (endIdx - startIdx))") auto

function trimEnd :: "jsstring \<Rightarrow> int \<Rightarrow> int \<Rightarrow> int" where
  "trimEnd text startIdx endIdx =
     (if endIdx > startIdx \<and> testWhiteSpace (charAt text (endIdx - 1))
      then trimEnd text startIdx (endIdx - 1)
      else endIdx)"
  by pat_completeness auto
termination
  by (relation "measure (\<lambda>(text, startIdx, endIdx). nat (endIdx - startIdx))") auto

declare trimStart.simps [simp del] trimEnd.simps [simp del]

text \<open>The body of the \<^verbatim>\<open>forEach\<close> over the source's runs.\<close>

definition copyRun :: "int \<Rightarrow> int \<Rightarrow> 'st builder \<Rightarrow> 'st text_run \<Rightarrow> 'st builder" where
  "copyRun startIdx endIdx builder run =
     (let runStart = startIndex run;
          runEnd = endIndex run;
          overlapStart = max runStart startIdx;
          overlapEnd = min runEnd endIdx
      in if overlapEnd > overlapStart then
           (let localStart = overlapStart - startIdx;
                localEnd = overlapEnd - startIdx;
                builder = setTextStyle localStart localEnd (textStyle run) builder
            in case linkUrl run of
                 None \<Rightarrow> builder
               | Some link \<Rightarrow>
                   if link \<noteq> [] then setLinkUrl localStart localEnd link builder
                   else builder)
         else builder)"

text \<open>The index just after the start marker, and the index where the section stops.\<close>

definition startAfter :: "jsstring \<Rightarrow> rmatch \<Rightarrow> int" where
  "startAfter text startMatch =
     indexOf text (matched startMatch) + int (length (matched startMatch))"

definition stopBefore :: "jsstring \<Rightarrow> int \<Rightarrow> rmatch option \<Rightarrow> int" where
  "stopBefore text startIdx stopMatch =
     (case stopMatch of
        None \<Rightarrow> int (length text)
      | Some m \<Rightarrow> startIdx + indexOf (sliceFrom text startIdx) (matched m))"

definition extractRichTextSection ::
  "ref \<Rightarrow> regexp \<Rightarrow> regexp \<Rightarrow> 'st state \<Rightarrow> (js_error + ref option) \<times> 'st state" where
  "extractRichTextSection richText startRe stopRe s0 =
     (case deref s0 richText of
        None \<Rightarrow> (Inl TypeError, s0)
      | Some rt \<Rightarrow>
          let text = getText rt;
              s1 = console_log SearchingStart s0;
              startMatch = startRe text;
              s2 = console_log (MatchResult (map_option matched startMatch)) s1
          in case startMatch of
               None \<Rightarrow> (Inr None, s2)
             | Some sm \<Rightarrow>
                 let startIdx0 = startAfter text sm;
                     afterContent = sliceFrom text startIdx0;
                     s3 = console_log SearchingStop s2;
                     stopMatch = stopRe afterContent;
                     s4 = console_log (MatchResult (map_option matched stopMatch)) s3;
                     endIdx0 = stopBefore text startIdx0 stopMatch;
                     s5 = console_log (RawSlice startIdx0 endIdx0) s4;
                     startIdx = trimStart text startIdx0 endIdx0;
                     endIdx = trimEnd text startIdx endIdx0
                 in if endIdx \<le> startIdx then (Inr None, console_log EmptyAfterTrim s5)
                    else
                      let s6 = console_log (FinalSlice startIdx endIdx) s5;
                          subText = substring text startIdx endIdx;
                          builder = setText subText newRichTextValue;
                          builder = foldl (copyRun startIdx endIdx) builder (getRuns rt);
                          (r, s7) = alloc (build builder) s6
                      in (Inr (Some r), s7))"

section \<open>Notions used to state the properties\<close>

text \<open>A text given by its ASCII characters, one code unit each.\<close>

definition ascii :: "string \<Rightarrow> jsstring" where
  "ascii = map of_char"

text \<open>
  The values of \<open>startIdx\<close> and \<open>endIdx\<close> in the routine when the start marker is found:
  before the trimming loops (the raw range) and after them (the trimmed range).
\<close>

definition rawRange :: "jsstring \<Rightarrow> regexp \<Rightarrow> regexp \<Rightarrow> (int \<times> int) option" where
  "rawRange text startRe stopRe =
     (case startRe text of
        None \<Rightarrow> None
      | Some sm \<Rightarrow>
          let startIdx0 = startAfter text sm;
              endIdx0 = stopBefore text startIdx0 (stopRe (sliceFrom text startIdx0))
          in Some (startIdx0, endIdx0))"

definition trimmedRange :: "jsstring \<Rightarrow> regexp \<Rightarrow> regexp \<Rightarrow> (int \<times> int) option" where
  "trimmedRange text startRe stopRe =
     (case rawRange text startRe stopRe of
        None \<Rightarrow> None
      | Some (startIdx0, endIdx0) \<Rightarrow>
          let startIdx = trimStart text startIdx0 endIdx0;
              endIdx = trimEnd text startIdx endIdx0
          in Some (startIdx, endIdx))"

text \<open>What a call hands back: the error, \<^verbatim>\<open>null\<close>, or the rich text value behind the reference.\<close>

definition resultValue ::
  "(js_error + ref option) \<times> 'st state \<Rightarrow> js_error + 'st rich_text option" where
  "resultValue out =
     (case fst out of
        Inl e \<Rightarrow> Inl e
      | Inr None \<Rightarrow> Inr None
      | Inr (Some r) \<Rightarrow> Inr (deref (snd out) r))"


text \<open>How many times the body of each trimming loop runs.\<close>

function trimStartIters :: "jsstring \<Rightarrow> int \<Rightarrow> int \<Rightarrow> nat" where
  "trimStartIters text startIdx endIdx =
     (if startIdx < endIdx \<and> testWhiteSpace (charAt text startIdx)
      then Suc (trimStartIters text (startIdx + 1) endIdx)
      else 0)"
  by pat_completeness auto
termination
  by (relation "measure (\<lambda>(text, startIdx, endIdx). nat (endIdx - startIdx))") auto

function trimEndIters :: "jsstring \<Rightarrow> int \<Rightarrow> int \<Rightarrow> nat" where
  "trimEndIters text startIdx endIdx =
     (if endIdx > startIdx \<and> testWhiteSpace (charAt text (endIdx - 1))
      then Suc (trimEndIters text startIdx (endIdx - 1))
      else 0)"
  by pat_completeness auto
termination
  by (relation "measure (\<lambda>(text, startIdx, endIdx). nat (endIdx - startIdx))") auto

declare trimStartIters.simps [simp del] trimEndIters.simps [simp del]

text \<open>
  Runs listed by ascending start offset, no two of them sharing a position (the
  intersection of their ranges is empty).
\<close>

definition runsOrdered :: "'st text_run list \<Rightarrow> bool" where
  "runsOrdered rs =
     sorted_wrt (\<lambda>a b. startIndex a \<le> startIndex b \<and>
       min (endIndex a) (endIndex b) \<le> max (startIndex a) (startIndex b)) rs"

section \<open>A worked example\<close>

text \<open>
  A source text with two markers and three runs, the second of them linked; the section
  between the markers is \<open>call Bob\<close>, at \<open>[3, 11)\<close> of the source.
\<close>

definition demoText :: jsstring where
  "demoText = ascii ''A: call Bob  B: pay''"

definition demoSource :: "nat rich_text" where
  "demoSource =
     \<lparr>getText = demoText,
      getRuns =
        [\<lparr>startIndex = 0, endIndex = 5, textStyle = 1, linkUrl = None\<rparr>,
         \<lparr>startIndex = 5, endIndex = 9, textStyle = 2, linkUrl = Some (ascii ''u'')\<rparr>,
         \<lparr>startIndex = 9, endIndex = 19, textStyle = 3, linkUrl = None\<rparr>]\<rparr>"

definition demoState :: "nat state" where
  "demoState = \<lparr>heap = [demoSource], console = []\<rparr>"

definition demoStart :: regexp where
  "demoStart = literal (ascii ''A:'')"

definition demoStop :: regexp where
  "demoStop = literal (ascii ''B:'')"

definition demoSection :: "nat rich_text" where
  "demoSection =
     \<lparr>getText = ascii ''call Bob'',
      getRuns =
        [\<lparr>startIndex = 0, endIndex = 2, textStyle = 1, linkUrl = None\<rparr>,
         \<lparr>startIndex = 2, endIndex = 6, textStyle = 2, linkUrl = Some (ascii ''u'')\<rparr>,
         \<lparr>startIndex = 6, endIndex = 8, textStyle = 3, linkUrl = None\<rparr>]\<rparr>"


section \<open>Auxiliary facts\<close>


subsection \<open>indexOf\<close>

lemma indexOf_ge: "- 1 \<le> indexOf t s"
  by (induction t) (simp_all add: Let_def)

lemma indexOf_Nil: "indexOf t [] = 0"
  by (cases t) simp_all

lemma indexOf_found:
  "0 \<le> indexOf t s \<Longrightarrow>
     take (length s) (drop (nat (indexOf t s)) t) = s \<and>
     indexOf t s + int (length s) \<le> int (length t)"
proof (induction t)
  case Nil
  then show ?case by (simp split: if_splits)
next
  case (Cons c cs)
  show ?case
  proof (cases "take (length s) (c # cs) = s")
    case True
    have "length s = length (take (length s) (c # cs))"
      using True by simp
    also have "\<dots> \<le> length (c # cs)"
      by simp
    finally have "length s \<le> length (c # cs)" .
    with True show ?thesis by simp
  next
    case False
    with Cons.prems have r: "0 \<le> indexOf cs s"
      by (simp add: Let_def split: if_splits)
    with False have e: "indexOf (c # cs) s = indexOf cs s + 1"
      by (simp add: Let_def)
    have "nat (indexOf cs s + 1) = Suc (nat (indexOf cs s))"
      using r by simp
    with Cons.IH [OF r] e show ?thesis by simp
  qed
qed

lemma indexOf_least:
  "take (length s) (drop j t) = s \<Longrightarrow> 0 \<le> indexOf t s \<and> indexOf t s \<le> int j"
proof (induction t arbitrary: j)
  case Nil
  then show ?case by simp
next
  case (Cons c cs)
  show ?case
  proof (cases "take (length s) (c # cs) = s")
    case True
    then show ?thesis by simp
  next
    case False
    with Cons.prems obtain k where k: "j = Suc k"
      by (cases j) auto
    with Cons.prems have "take (length s) (drop k cs) = s" by simp
    from Cons.IH [OF this] False k show ?thesis by (simp add: Let_def)
  qed
qed

subsection \<open>The trimming loops\<close>

lemma trimStart_step:
  "startIdx < endIdx \<Longrightarrow> testWhiteSpace (charAt tx startIdx) \<Longrightarrow>
     trimStart tx startIdx endIdx = trimStart tx (startIdx + 1) endIdx"
  by (subst trimStart.simps) simp

lemma trimStart_stop:
  "\<not> (startIdx < endIdx \<and> testWhiteSpace (charAt tx startIdx)) \<Longrightarrow>
     trimStart tx startIdx endIdx = startIdx"
  by (subst trimStart.simps) auto

lemma trimEnd_step:
  "startIdx < endIdx \<Longrightarrow> testWhiteSpace (charAt tx (endIdx - 1)) \<Longrightarrow>
     trimEnd tx startIdx endIdx = trimEnd tx startIdx (endIdx - 1)"
  by (subst trimEnd.simps) simp

lemma trimEnd_stop:
  "\<not> (startIdx < endIdx \<and> testWhiteSpace (charAt tx (endIdx - 1))) \<Longrightarrow>
     trimEnd tx startIdx endIdx = endIdx"
  by (subst trimEnd.simps) auto

lemma trimStart_ge: "a \<le> trimStart t a b"
proof (induction t a b rule: trimStart.induct)
  case (1 tx startIdx endIdx)
  show ?case
  proof (cases "startIdx < endIdx \<and> testWhiteSpace (charAt tx startIdx)")
    case True
    with 1 show ?thesis by (simp add: trimStart_step)
  next
    case False
    then show ?thesis by (simp add: trimStart_stop)
  qed
qed

lemma trimStart_le: "a \<le> b \<Longrightarrow> trimStart t a b \<le> b"
proof (induction t a b rule: trimStart.induct)
  case (1 tx startIdx endIdx)
  show ?case
  proof (cases "startIdx < endIdx \<and> testWhiteSpace (charAt tx startIdx)")
    case True
    with 1 show ?thesis by (simp add: trimStart_step)
  next
    case False
    with 1 show ?thesis by (simp add: trimStart_stop)
  qed
qed

lemma trimStart_not_space:
  "trimStart t a b < b \<Longrightarrow> \<not> testWhiteSpace (charAt t (trimStart t a b))"
proof (induction t a b rule: trimStart.induct)
  case (1 tx startIdx endIdx)
  show ?case
  proof (cases "startIdx < endIdx \<and> testWhiteSpace (charAt tx startIdx)")
    case True
    with 1 show ?thesis by (simp add: trimStart_step)
  next
    case False
    with 1 show ?thesis by (auto simp add: trimStart_stop)
  qed
qed


lemma trimEnd_le: "trimEnd t a b \<le> b"
proof (induction t a b rule: trimEnd.induct)
  case (1 tx startIdx endIdx)
  show ?case
  proof (cases "startIdx < endIdx \<and> testWhiteSpace (charAt tx (endIdx - 1))")
    case True
    with 1 show ?thesis by (simp add: trimEnd_step)
  next
    case False
    then show ?thesis by (simp add: trimEnd_stop)
  qed
qed

lemma trimEnd_ge: "a \<le> b \<Longrightarrow> a \<le> trimEnd t a b"
proof (induction t a b rule: trimEnd.induct)
  case (1 tx startIdx endIdx)
  show ?case
  proof (cases "startIdx < endIdx \<and> testWhiteSpace (charAt tx (endIdx - 1))")
    case True
    with 1 show ?thesis by (simp add: trimEnd_step)
  next
    case False
    with 1 show ?thesis by (simp add: trimEnd_stop)
  qed
qed

lemma trimEnd_not_space:
  "a < trimEnd t a b \<Longrightarrow> \<not> testWhiteSpace (charAt t (trimEnd t a b - 1))"
proof (induction t a b rule: trimEnd.induct)
  case (1 tx startIdx endIdx)
  show ?case
  proof (cases "startIdx < endIdx \<and> testWhiteSpace (charAt tx (endIdx - 1))")
    case True
    with 1 show ?thesis by (simp add: trimEnd_step)
  next
    case False
    with 1 show ?thesis by (auto simp add: trimEnd_stop)
  qed
qed



subsection \<open>The builder\<close>

lemma copyRun_emitted:
  "b_runs (copyRun S E newRichTextValue r) =
     (if max (startIndex r) S < min (endIndex r) E
      then [\<lparr>startIndex = max (startIndex r) S - S, endIndex = min (endIndex r) E - S,
             textStyle = textStyle r,
             linkUrl = (if linkUrl r = Some [] then None else linkUrl r)\<rparr>]
      else [])"
  by (simp add: copyRun_def setTextStyle_def setLinkUrl_def newRichTextValue_def Let_def
      split: option.split)

lemma copyRun_runs:
  "b_runs (copyRun S E b r) = b_runs b @ b_runs (copyRun S E newRichTextValue r)"
  by (simp add: copyRun_def setTextStyle_def setLinkUrl_def newRichTextValue_def Let_def
      split: option.split)

lemma copyRun_text: "b_text (copyRun S E b r) = b_text b"
  by (simp add: copyRun_def setTextStyle_def setLinkUrl_def Let_def
      split: option.split list.split)

lemma foldl_copyRun_runs:
  "b_runs (foldl (copyRun S E) b rs) =
     b_runs b @ concat (map (\<lambda>r. b_runs (copyRun S E newRichTextValue r)) rs)"
proof (induction rs arbitrary: b)
  case Nil
  show ?case by simp
next
  case (Cons r rs)
  have "b_runs (foldl (copyRun S E) (copyRun S E b r) rs) =
      b_runs (copyRun S E b r) @
      concat (map (\<lambda>r. b_runs (copyRun S E newRichTextValue r)) rs)"
    by (rule Cons.IH)
  then show ?case by (simp add: copyRun_runs [of S E b r])
qed

lemma foldl_copyRun_text: "b_text (foldl (copyRun S E) b rs) = b_text b"
  by (induction rs arbitrary: b) (simp_all add: copyRun_text)


subsection \<open>The routine, case by case\<close>


lemma extract_no_start:
  assumes "deref s src = Some rt" and "p (getText rt) = None"
  shows "extractRichTextSection src p q s =
           (Inr None, s\<lparr>console := console s @ [SearchingStart, MatchResult None]\<rparr>)"
  using assms by (simp add: extractRichTextSection_def console_log_def Let_def)


lemma extract_start_found:
  assumes "deref s src = Some rt" and "p (getText rt) = Some sm"
  shows "extractRichTextSection src p q s =
    (let tx = getText rt;
         a = startAfter tx sm;
         sm2 = q (sliceFrom tx a);
         b = stopBefore tx a sm2;
         S = trimStart tx a b;
         E = trimEnd tx S b;
         ls = [SearchingStart, MatchResult (Some (matched sm)), SearchingStop,
               MatchResult (map_option matched sm2), RawSlice a b]
     in if E \<le> S then (Inr None, s\<lparr>console := console s @ ls @ [EmptyAfterTrim]\<rparr>)
        else (Inr (Some (length (heap s))),
              s\<lparr>console := console s @ ls @ [FinalSlice S E],
                heap := heap s @
                  [\<lparr>getText = substring tx S E,
                    getRuns = concat (map (\<lambda>r. b_runs (copyRun S E newRichTextValue r))
                      (getRuns rt))\<rparr>]\<rparr>))"
  using assms
  by (simp add: extractRichTextSection_def Let_def console_log_def alloc_def build_def
      setText_def foldl_copyRun_runs foldl_copyRun_text newRichTextValue_def)

lemma trimmedRange_SomeD:
  assumes "trimmedRange tx p q = Some (S, E)"
  obtains sm a b where "p tx = Some sm" and "a = startAfter tx sm"
    and "b = stopBefore tx a (q (sliceFrom tx a))" and "rawRange tx p q = Some (a, b)"
    and "S = trimStart tx a b" and "E = trimEnd tx S b"
  using assms
  by (auto simp add: trimmedRange_def rawRange_def Let_def split: option.splits)

lemma trimmedRange_None: "trimmedRange tx p q = None \<longleftrightarrow> p tx = None"
  by (simp add: trimmedRange_def rawRange_def Let_def split: option.splits)

lemma extract_empty:
  assumes "deref s src = Some rt" and "trimmedRange (getText rt) p q = Some (S, E)"
    and "E \<le> S"
  shows "fst (extractRichTextSection src p q s) = Inr None"
    and "heap (snd (extractRichTextSection src p q s)) = heap s"
    and "\<exists>ls. console (snd (extractRichTextSection src p q s)) = console s @ ls"
proof -
  from assms(2) obtain sm a b where sm: "p (getText rt) = Some sm"
    and a: "a = startAfter (getText rt) sm"
    and b: "b = stopBefore (getText rt) a (q (sliceFrom (getText rt) a))"
    and S: "S = trimStart (getText rt) a b" and E: "E = trimEnd (getText rt) S b"
    by (rule trimmedRange_SomeD)
  have *: "extractRichTextSection src p q s =
      (let tx = getText rt;
           ls = [SearchingStart, MatchResult (Some (matched sm)), SearchingStop,
                 MatchResult (map_option matched (q (sliceFrom tx a))), RawSlice a b]
       in if E \<le> S then (Inr None, s\<lparr>console := console s @ ls @ [EmptyAfterTrim]\<rparr>)
          else (Inr (Some (length (heap s))),
                s\<lparr>console := console s @ ls @ [FinalSlice S E],
                  heap := heap s @
                    [\<lparr>getText = substring tx S E,
                      getRuns = concat (map (\<lambda>r. b_runs (copyRun S E newRichTextValue r))
                        (getRuns rt))\<rparr>]\<rparr>))"
    unfolding extract_start_found [of s src rt p sm q, OF assms(1) sm] Let_def
    unfolding a [symmetric] b [symmetric] S [symmetric] E [symmetric] by (rule refl)
  from assms(3) show "fst (extractRichTextSection src p q s) = Inr None"
    by (simp add: * Let_def)
  from assms(3) show "heap (snd (extractRichTextSection src p q s)) = heap s"
    by (simp add: * Let_def)
  from assms(3) show "\<exists>ls. console (snd (extractRichTextSection src p q s)) = console s @ ls"
    by (simp add: * Let_def)
qed

lemma extract_section:
  assumes "deref s src = Some rt" and "trimmedRange (getText rt) p q = Some (S, E)"
    and "S < E"
  shows "fst (extractRichTextSection src p q s) = Inr (Some (length (heap s)))"
    and "heap (snd (extractRichTextSection src p q s)) =
           heap s @
             [\<lparr>getText = substring (getText rt) S E,
               getRuns = concat (map (\<lambda>r. b_runs (copyRun S E newRichTextValue r))
                 (getRuns rt))\<rparr>]"
    and "\<exists>ls. console (snd (extractRichTextSection src p q s)) = console s @ ls"
proof -
  from assms(2) obtain sm a b where sm: "p (getText rt) = Some sm"
    and a: "a = startAfter (getText rt) sm"
    and b: "b = stopBefore (getText rt) a (q (sliceFrom (getText rt) a))"
    and S: "S = trimStart (getText rt) a b" and E: "E = trimEnd (getText rt) S b"
    by (rule trimmedRange_SomeD)
  have *: "extractRichTextSection src p q s =
      (let tx = getText rt;
           ls = [SearchingStart, MatchResult (Some (matched sm)), SearchingStop,
                 MatchResult (map_option matched (q (sliceFrom tx a))), RawSlice a b]
       in if E \<le> S then (Inr None, s\<lparr>console := console s @ ls @ [EmptyAfterTrim]\<rparr>)
          else (Inr (Some (length (heap s))),
                s\<lparr>console := console s @ ls @ [FinalSlice S E],
                  heap := heap s @
                    [\<lparr>getText = substring tx S E,
                      getRuns = concat (map (\<lambda>r. b_runs (copyRun S E newRichTextValue r))
                        (getRuns rt))\<rparr>]\<rparr>))"
    unfolding extract_start_found [of s src rt p sm q, OF assms(1) sm] Let_def
    unfolding a [symmetric] b [symmetric] S [symmetric] E [symmetric] by (rule refl)
  from assms(3) show "fst (extractRichTextSection src p q s) = Inr (Some (length (heap s)))"
    by (simp add: * Let_def)
  from assms(3) show "heap (snd (extractRichTextSection src p q s)) =
           heap s @
             [\<lparr>getText = substring (getText rt) S E,
               getRuns = concat (map (\<lambda>r. b_runs (copyRun S E newRichTextValue r))
                 (getRuns rt))\<rparr>]"
    by (simp add: * Let_def)
  from assms(3) show "\<exists>ls. console (snd (extractRichTextSection src p q s)) = console s @ ls"
    by (simp add: * Let_def)
qed

lemma resultValue_no_start:
  assumes "deref s src = Some rt" and "p (getText rt) = None"
  shows "resultValue (extractRichTextSection src p q s) = Inr None"
  by (simp add: extract_no_start [of s src rt p q, OF assms] resultValue_def)

lemma resultValue_empty:
  assumes "deref s src = Some rt" and "trimmedRange (getText rt) p q = Some (S, E)"
    and "E \<le> S"
  shows "resultValue (extractRichTextSection src p q s) = Inr None"
  by (simp add: resultValue_def extract_empty(1) [OF assms])

lemma resultValue_section:
  assumes "deref s src = Some rt" and "trimmedRange (getText rt) p q = Some (S, E)"
    and "S < E"
  shows "resultValue (extractRichTextSection src p q s) =
     Inr (Some \<lparr>getText = substring (getText rt) S E,
                 getRuns = concat (map (\<lambda>r. b_runs (copyRun S E newRichTextValue r))
                   (getRuns rt))\<rparr>)"
  by (simp add: resultValue_def deref_def extract_section(1,2) [OF assms])

lemma resultValue_SomeD:
  assumes "deref s src = Some rt"
    and "resultValue (extractRichTextSection src p q s) = Inr (Some res)"
  obtains S E where "trimmedRange (getText rt) p q = Some (S, E)" and "S < E"
    and "res = \<lparr>getText = substring (getText rt) S E,
                 getRuns = concat (map (\<lambda>r. b_runs (copyRun S E newRichTextValue r))
                   (getRuns rt))\<rparr>"
proof (cases "trimmedRange (getText rt) p q")
  case None
  then have "p (getText rt) = None" by (simp add: trimmedRange_None)
  from resultValue_no_start [of s src rt p q, OF assms(1) this] assms(2) show ?thesis by simp
next
  case (Some se)
  obtain S E where se: "se = (S, E)" by (cases se)
  show ?thesis
  proof (cases "S < E")
    case True
    from resultValue_section [OF assms(1) Some [unfolded se] True] assms(2) that Some se True
    show ?thesis by simp
  next
    case False
    then have "E \<le> S" by simp
    from resultValue_empty [OF assms(1) Some [unfolded se] this] assms(2) show ?thesis by simp
  qed
qed


subsection \<open>Where the ranges lie\<close>

lemma startAfter_nonneg: "0 \<le> startAfter tx sm"
proof (cases "matched sm = []")
  case True
  then show ?thesis by (simp add: startAfter_def indexOf_Nil)
next
  case False
  then have "1 \<le> int (length (matched sm))"
    by (cases "matched sm") simp_all
  with indexOf_ge [of tx "matched sm"] show ?thesis
    by (simp add: startAfter_def)
qed

lemma stopBefore_le:
  assumes "0 \<le> a" and "a < stopBefore tx a sm2"
  shows "stopBefore tx a sm2 \<le> int (length tx)"
proof (cases sm2)
  case None
  then show ?thesis by (simp add: stopBefore_def)
next
  case (Some m)
  let ?rest = "sliceFrom tx a"
  from assms(2) Some have pos: "0 < indexOf ?rest (matched m)"
    by (simp add: stopBefore_def)
  then have "indexOf ?rest (matched m) + int (length (matched m)) \<le> int (length ?rest)"
    using indexOf_found [of ?rest "matched m"] by simp
  with pos have le: "indexOf ?rest (matched m) \<le> int (length ?rest)"
    and ne: "0 < int (length ?rest)"
    by linarith+
  from assms(1) have "?rest = drop (nat a) tx"
    by (simp add: sliceFrom_def)
  with ne have "int (length ?rest) = int (length tx) - a"
    using assms(1) by simp
  with le Some show ?thesis
    by (simp add: stopBefore_def)
qed

lemma rawRange_bounds:
  assumes "rawRange tx p q = Some (a, b)"
  shows "0 \<le> a" and "a < b \<Longrightarrow> b \<le> int (length tx)"
proof -
  from assms obtain sm where a: "a = startAfter tx sm"
    and b: "b = stopBefore tx a (q (sliceFrom tx a))"
    by (auto simp add: rawRange_def Let_def split: option.splits)
  show "0 \<le> a" by (simp add: a startAfter_nonneg)
  then show "a < b \<Longrightarrow> b \<le> int (length tx)"
    unfolding b by (rule stopBefore_le)
qed

lemma trimmedRange_bounds:
  assumes "trimmedRange tx p q = Some (S, E)" and "S < E"
  shows "0 \<le> S" and "E \<le> int (length tx)"
    and "\<not> testWhiteSpace (charAt tx S)" and "\<not> testWhiteSpace (charAt tx (E - 1))"
proof -
  from assms(1) obtain a b where raw: "rawRange tx p q = Some (a, b)"
    and S: "S = trimStart tx a b" and E: "E = trimEnd tx S b"
    by (rule trimmedRange_SomeD)
  have aS: "a \<le> S" unfolding S by (rule trimStart_ge)
  have Eb: "E \<le> b" unfolding E by (rule trimEnd_le)
  from rawRange_bounds(1) [OF raw] aS show "0 \<le> S" by simp
  from aS Eb assms(2) have "a < b" by simp
  from rawRange_bounds(2) [OF raw this] Eb show "E \<le> int (length tx)" by simp
  from assms(2) Eb have "trimStart tx a b < b" unfolding S by simp
  then show "\<not> testWhiteSpace (charAt tx S)" unfolding S by (rule trimStart_not_space)
  from assms(2) show "\<not> testWhiteSpace (charAt tx (E - 1))"
    unfolding E by (rule trimEnd_not_space)
qed

lemma substring_inside:
  assumes "0 \<le> S" and "S \<le> E" and "E \<le> int (length tx)"
  shows "substring tx S E = take (nat (E - S)) (drop (nat S) tx)"
    and "length (substring tx S E) = nat (E - S)"
proof -
  from assms show eq: "substring tx S E = take (nat (E - S)) (drop (nat S) tx)"
    by (simp add: substring_def Let_def min_def max_def)
  from assms show "length (substring tx S E) = nat (E - S)"
    unfolding eq by simp
qed

subsection \<open>The runs of the result\<close>

lemma emitted_runs:
  "concat (map (\<lambda>r. b_runs (copyRun S E newRichTextValue r)) rs) =
     map (\<lambda>r. \<lparr>startIndex = max (startIndex r) S - S, endIndex = min (endIndex r) E - S,
               textStyle = textStyle r,
               linkUrl = (if linkUrl r = Some [] then None else linkUrl r)\<rparr>)
       (filter (\<lambda>r. max (startIndex r) S < min (endIndex r) E) rs)"
  by (induction rs) (simp_all add: copyRun_emitted)

lemma resultValue_runs:
  assumes "deref s src = Some rt"
    and "resultValue (extractRichTextSection src p q s) = Inr (Some res)"
    and "trimmedRange (getText rt) p q = Some (S, E)"
  shows "S < E" and "getText res = substring (getText rt) S E"
    and "getRuns res =
      map (\<lambda>r. \<lparr>startIndex = max (startIndex r) S - S, endIndex = min (endIndex r) E - S,
               textStyle = textStyle r,
               linkUrl = (if linkUrl r = Some [] then None else linkUrl r)\<rparr>)
       (filter (\<lambda>r. max (startIndex r) S < min (endIndex r) E) (getRuns rt))"
proof -
  from assms(1,2) obtain S' E' where r: "trimmedRange (getText rt) p q = Some (S', E')"
    and lt: "S' < E'"
    and res: "res = \<lparr>getText = substring (getText rt) S' E',
                 getRuns = concat (map (\<lambda>r. b_runs (copyRun S' E' newRichTextValue r))
                   (getRuns rt))\<rparr>"
    by (rule resultValue_SomeD)
  from r assms(3) have eq: "S' = S" "E' = E" by simp_all
  from lt eq show "S < E" by simp
  from res eq show "getText res = substring (getText rt) S E" by simp
  from res eq show "getRuns res =
      map (\<lambda>r. \<lparr>startIndex = max (startIndex r) S - S, endIndex = min (endIndex r) E - S,
               textStyle = textStyle r,
               linkUrl = (if linkUrl r = Some [] then None else linkUrl r)\<rparr>)
       (filter (\<lambda>r. max (startIndex r) S < min (endIndex r) E) (getRuns rt))"
    by (simp add: emitted_runs)
qed

subsection \<open>The store\<close>





subsection \<open>Counting the iterations\<close>

lemma trimStart_iters: "trimStart t a b = a + int (trimStartIters t a b)"
proof (induction t a b rule: trimStart.induct)
  case (1 tx startIdx endIdx)
  show ?case
  proof (cases "startIdx < endIdx \<and> testWhiteSpace (charAt tx startIdx)")
    case True
    then have "trimStartIters tx startIdx endIdx = Suc (trimStartIters tx (startIdx + 1) endIdx)"
      by (subst trimStartIters.simps) simp
    with 1 True show ?thesis by (simp add: trimStart_step)
  next
    case False
    then have "trimStartIters tx startIdx endIdx = 0"
      by (subst trimStartIters.simps) auto
    with False show ?thesis by (simp add: trimStart_stop)
  qed
qed

lemma trimEnd_iters: "trimEnd t a b = b - int (trimEndIters t a b)"
proof (induction t a b rule: trimEnd.induct)
  case (1 tx startIdx endIdx)
  show ?case
  proof (cases "startIdx < endIdx \<and> testWhiteSpace (charAt tx (endIdx - 1))")
    case True
    then have "trimEndIters tx startIdx endIdx = Suc (trimEndIters tx startIdx (endIdx - 1))"
      by (subst trimEndIters.simps) simp
    with 1 True show ?thesis by (simp add: trimEnd_step)
  next
    case False
    then have "trimEndIters tx startIdx endIdx = 0"
      by (subst trimEndIters.simps) auto
    with False show ?thesis by (simp add: trimEnd_stop)
  qed
qed

subsection \<open>Pattern matches and occurrences\<close>

text \<open>
  The routine looks for the matched text with \<open>indexOf\<close>, so it starts the section at or
  before the end of the match: at the end of the first occurrence of the matched text,
  which is the end of the match when the matched text does not occur before it.
\<close>

lemma startAfter_le_match_end:
  assumes "matchAt tx sm"
  shows "startAfter tx sm \<le> matchIndex sm + int (length (matched sm))"
proof -
  from assms have "take (length (matched sm)) (drop (nat (matchIndex sm)) tx) = matched sm"
    and "0 \<le> matchIndex sm"
    by (simp_all add: matchAt_def)
  with indexOf_least [of "matched sm" "nat (matchIndex sm)" tx]
  show ?thesis by (simp add: startAfter_def)
qed

lemma startAfter_at_match:
  assumes "matchAt tx sm"
    and "\<And>j. j < nat (matchIndex sm) \<Longrightarrow> \<not> occursAt tx (matched sm) j"
  shows "startAfter tx sm = matchIndex sm + int (length (matched sm))"
proof -
  from assms(1) have occ: "take (length (matched sm)) (drop (nat (matchIndex sm)) tx) = matched sm"
    and pos: "0 \<le> matchIndex sm"
    by (simp_all add: matchAt_def)
  from indexOf_least [OF occ] pos
  have found: "0 \<le> indexOf tx (matched sm)" and le: "indexOf tx (matched sm) \<le> matchIndex sm"
    by simp_all
  from indexOf_found [OF found]
  have "occursAt tx (matched sm) (nat (indexOf tx (matched sm)))"
    by (simp add: occursAt_def)
  with assms(2) have "\<not> nat (indexOf tx (matched sm)) < nat (matchIndex sm)"
    by blast
  with found le pos have "indexOf tx (matched sm) = matchIndex sm"
    by linarith
  then show ?thesis by (simp add: startAfter_def)
qed

subsection \<open>An empty section\<close>


subsection \<open>What a call changes\<close>


subsection \<open>Ordered runs\<close>

lemma ordered_clip:
  assumes "runsOrdered rs"
  shows "runsOrdered
     (map (\<lambda>r. \<lparr>startIndex = max (startIndex r) S - S, endIndex = min (endIndex r) E - S,
               textStyle = textStyle r,
               linkUrl = (if linkUrl r = Some [] then None else linkUrl r)\<rparr>)
       (filter (\<lambda>r. max (startIndex r) S < min (endIndex r) E) rs))"
proof -
  let ?R = "\<lambda>a b. startIndex a \<le> startIndex b \<and>
       min (endIndex a) (endIndex b) \<le> max (startIndex a) (startIndex b)"
  let ?Q = "\<lambda>a b. max (startIndex a) S - S \<le> max (startIndex b) S - S \<and>
       min (min (endIndex a) E - S) (min (endIndex b) E - S)
         \<le> max (max (startIndex a) S - S) (max (startIndex b) S - S)"
  from assms have "sorted_wrt ?R rs" by (simp add: runsOrdered_def)
  then have "sorted_wrt ?R (filter (\<lambda>r. max (startIndex r) S < min (endIndex r) E) rs)"
    by (rule sorted_wrt_filter)
  moreover have "?R a b \<Longrightarrow> ?Q a b" for a b :: "'a text_run"
    by (simp add: min_def max_def split: if_splits)
  ultimately have "sorted_wrt ?Q (filter (\<lambda>r. max (startIndex r) S < min (endIndex r) E) rs)"
    by (rule sorted_wrt_mono_rel [where P = ?R, rotated]) blast
  then show ?thesis
    by (simp add: runsOrdered_def sorted_wrt_map)
qed

subsection \<open>The worked example, evaluated\<close>

lemma demo_deref: "deref demoState 0 = Some demoSource"
  by code_simp

lemma demo_result:
  "resultValue (extractRichTextSection 0 demoStart demoStop demoState) = Inr (Some demoSection)"
  by code_simp

lemma demo_raw: "rawRange demoText demoStart demoStop = Some (2, 13)"
  by code_simp

lemma demo_range: "trimmedRange (getText demoSource) demoStart demoStop = Some (3, 11)"
  by code_simp

section \<open>Properties of the routine\<close>

text \<open>
  C1. The section is meant to begin just after the first match of the start pattern and
  to end just before the first match of the stop pattern in the remainder. The routine
  takes the matched text and searches for it again with \<open>indexOf\<close>; where that text also
  occurs before the match, it begins after the earlier occurrence. For the text \<open>abxab\<close>
  and the start pattern \<^verbatim>\<open>/ab$/\<close> the only match is at index 3 and ends at 5, the stop
  pattern \<^verbatim>\<open>/zz/\<close> matches nowhere, and the raw range of the routine is \<open>[2, 5)\<close>.
\<close>

theorem start_after_earlier_occurrence:
  "literalAtEnd (ascii ''ab'') (ascii ''abxab'') =
     Some \<lparr>matched = ascii ''ab'', matchIndex = 3\<rparr> \<and>
   literal (ascii ''zz'') (sliceFrom (ascii ''abxab'') 5) = None \<and>
   rawRange (ascii ''abxab'') (literalAtEnd (ascii ''ab'')) (literal (ascii ''zz'')) =
     Some (2, 5)"
  by code_simp






text \<open>
  C4. The runs of the result are, in order, the overlaps of the source's runs with the
  trimmed range \<open>[startIdx, endIdx)\<close>, lowered by \<open>startIdx\<close>: one run for each run of the
  source whose overlap is not empty, covering exactly the overlap, and nothing for a run
  whose overlap is empty.
\<close>

theorem clipped_runs:
  assumes "deref s src = Some rt"
    and "resultValue (extractRichTextSection src startRe stopRe s) = Inr (Some res)"
    and "trimmedRange (getText rt) startRe stopRe = Some (startIdx, endIdx)"
  shows "map (\<lambda>r. (startIndex r, endIndex r)) (getRuns res) =
     map (\<lambda>r. (max (startIndex r) startIdx - startIdx, min (endIndex r) endIdx - startIdx))
       (filter (\<lambda>r. max (startIndex r) startIdx < min (endIndex r) endIdx) (getRuns rt))"
  by (simp add: resultValue_runs(3) [OF assms] comp_def)

theorem clipped_runs_witness:
  "map (\<lambda>r. (startIndex r, endIndex r)) (getRuns demoSection) = [(0, 2), (2, 6), (6, 8)]"
proof -
  have "map (\<lambda>r. (max (startIndex r) 3 - 3, min (endIndex r) 11 - 3))
          (filter (\<lambda>r. max (startIndex r) 3 < min (endIndex r) 11) (getRuns demoSource)) =
        [(0, 2), (2, 6), (6, 8)]"
    by code_simp
  then show ?thesis
    unfolding clipped_runs [OF demo_deref demo_result demo_range] .
qed

text \<open>
  C5. With a start match and no stop match, the text of the result is meant to be the
  source from just after the start match to its end, trimmed. The routine starts after the
  first occurrence of the matched text instead (see C1): for the text \<open>a-a b\<close> and the start
  pattern \<^verbatim>\<open>/(?<=-)a/\<close>, whose match is at index 2 and ends at 3, with the stop pattern
  \<^verbatim>\<open>/z/\<close> matching nowhere after it, the result is \<open>-a b\<close> and not \<open>b\<close>.
\<close>

theorem text_from_earlier_occurrence:
  "literalAfter (of_char CHR ''-'') (ascii ''a'') (ascii ''a-a b'') =
     Some \<lparr>matched = ascii ''a'', matchIndex = 2\<rparr> \<and>
   literal (ascii ''z'') (sliceFrom (ascii ''a-a b'') 3) = None \<and>
   resultValue (extractRichTextSection 0 (literalAfter (of_char CHR ''-'') (ascii ''a''))
       (literal (ascii ''z''))
       \<lparr>heap = [\<lparr>getText = ascii ''a-a b'', getRuns = [] :: nat text_run list\<rparr>],
        console = []\<rparr>) =
     Inr (Some \<lparr>getText = ascii ''-a b'', getRuns = []\<rparr>)"
  by code_simp

text \<open>
  C6. Every run of a result satisfies \<open>0 \<le> start < end \<le> length\<close> of the result's own
  text, and when the source's runs are sorted by start offset and do not overlap, so are
  the result's.
\<close>

theorem run_invariants:
  assumes "deref s src = Some rt"
    and "resultValue (extractRichTextSection src startRe stopRe s) = Inr (Some res)"
  shows "(\<forall>run \<in> set (getRuns res).
            0 \<le> startIndex run \<and> startIndex run < endIndex run \<and>
            endIndex run \<le> int (length (getText res))) \<and>
         (runsOrdered (getRuns rt) \<longrightarrow> runsOrdered (getRuns res))"
proof -
  from assms obtain S E where r: "trimmedRange (getText rt) startRe stopRe = Some (S, E)"
    and lt: "S < E"
    by (rule resultValue_SomeD)
  note runs = resultValue_runs(3) [OF assms r]
  from trimmedRange_bounds(1,2) [OF r lt] lt
  have "length (substring (getText rt) S E) = nat (E - S)"
    by (intro substring_inside(2)) simp_all
  then have len: "int (length (getText res)) = E - S"
    using lt by (simp add: resultValue_runs(2) [OF assms r])
  have "0 \<le> startIndex run \<and> startIndex run < endIndex run \<and>
        endIndex run \<le> int (length (getText res))" if "run \<in> set (getRuns res)" for run
    using that unfolding runs len by auto
  moreover have "runsOrdered (getRuns res)" if "runsOrdered (getRuns rt)"
    unfolding runs using that by (rule ordered_clip)
  ultimately show ?thesis by blast
qed

theorem run_invariants_witness:
  "runsOrdered (getRuns demoSource) \<and> runsOrdered (getRuns demoSection) \<and>
   0 \<le> startIndex (hd (getRuns demoSection)) \<and>
   startIndex (hd (getRuns demoSection)) < endIndex (hd (getRuns demoSection)) \<and>
   endIndex (last (getRuns demoSection)) \<le> int (length (getText demoSection))"
proof -
  have "runsOrdered (getRuns demoSource)"
    by code_simp
  moreover have "hd (getRuns demoSection) \<in> set (getRuns demoSection)"
    and "last (getRuns demoSection) \<in> set (getRuns demoSection)"
    by (simp_all add: demoSection_def)
  ultimately show ?thesis
    using run_invariants [OF demo_deref demo_result] by blast
qed






text \<open>
  C9. The two trimming loops are defined by recursion on the measure
  \<open>endIdx - startIdx\<close>, which each iteration lowers by one, so they are total. Each iteration
  moves its index by one towards the other, the indices do not cross, and both loops
  together run at most as many times as the source text has characters.
\<close>

theorem trimming_bounded:
  assumes "rawRange tx startRe stopRe = Some (a, b)"
  shows "trimStart tx a b = a + int (trimStartIters tx a b) \<and>
         trimEnd tx (trimStart tx a b) b = b - int (trimEndIters tx (trimStart tx a b) b) \<and>
         (a \<le> b \<longrightarrow> trimStart tx a b \<le> trimEnd tx (trimStart tx a b) b) \<and>
         trimStartIters tx a b + trimEndIters tx (trimStart tx a b) b \<le> length tx"
proof -
  let ?S = "trimStart tx a b"
  let ?E = "trimEnd tx ?S b"
  have S: "?S = a + int (trimStartIters tx a b)" by (rule trimStart_iters)
  have E: "?E = b - int (trimEndIters tx ?S b)" by (rule trimEnd_iters)
  have cross: "?S \<le> ?E" if "a \<le> b"
    using that by (intro trimEnd_ge trimStart_le)
  have "int (trimStartIters tx a b + trimEndIters tx ?S b) \<le> int (length tx)"
  proof (cases "a < b")
    case True
    from rawRange_bounds [OF assms] True have "0 \<le> a" and "b \<le> int (length tx)"
      by simp_all
    moreover from True cross have "?S \<le> ?E" by simp
    ultimately show ?thesis using S E by linarith
  next
    case False
    then have "?S = a" by (simp add: trimStart_stop)
    moreover from False have "trimEnd tx a b = b" by (simp add: trimEnd_stop)
    ultimately show ?thesis using S E by simp
  qed
  then have "trimStartIters tx a b + trimEndIters tx ?S b \<le> length tx"
    by (simp only: of_nat_le_iff)
  with S E cross show ?thesis by blast
qed

theorem trimming_bounded_witness:
  "trimStart demoText 2 13 = 2 + int (trimStartIters demoText 2 13) \<and>
   trimEnd demoText (trimStart demoText 2 13) 13 =
     13 - int (trimEndIters demoText (trimStart demoText 2 13) 13) \<and>
   trimStart demoText 2 13 \<le> trimEnd demoText (trimStart demoText 2 13) 13 \<and>
   trimStartIters demoText 2 13 + trimEndIters demoText (trimStart demoText 2 13) 13
     \<le> length demoText"
proof -
  have "(2::int) \<le> 13" by simp
  with trimming_bounded [OF demo_raw] show ?thesis by blast
qed

text \<open>
  C10. The text of a result is not empty, its first and its last character are not white
  space, and it is the piece of the source text at the trimmed range, so white space
  inside it is kept.
\<close>

theorem boundary_stripped:
  assumes "deref s src = Some rt"
    and "resultValue (extractRichTextSection src startRe stopRe s) = Inr (Some res)"
  shows "getText res \<noteq> [] \<and>
         \<not> isWhiteSpace (hd (getText res)) \<and> \<not> isWhiteSpace (last (getText res)) \<and>
         (\<exists>startIdx endIdx.
            trimmedRange (getText rt) startRe stopRe = Some (startIdx, endIdx) \<and>
            getText res = take (nat (endIdx - startIdx)) (drop (nat startIdx) (getText rt)))"
proof -
  let ?tx = "getText rt"
  from assms obtain S E where r: "trimmedRange ?tx startRe stopRe = Some (S, E)"
    and lt: "S < E"
    by (rule resultValue_SomeD)
  note b = trimmedRange_bounds [OF r lt]
  from b(1,2) lt have eq: "getText res = take (nat (E - S)) (drop (nat S) ?tx)"
    unfolding resultValue_runs(2) [OF assms r] by (intro substring_inside(1)) simp_all
  from b(1,2) lt have S: "nat S < length ?tx" and n: "0 < nat (E - S)"
    and E: "nat S + (nat (E - S) - 1) = nat (E - 1)" and E': "nat (E - 1) < length ?tx"
    by simp_all
  from S n have ne: "getText res \<noteq> []"
    unfolding eq by simp
  from S n have "hd (getText res) = ?tx ! nat S"
    unfolding eq by (simp add: hd_drop_conv_nth)
  moreover from b(1) S have "charAt ?tx S = Some (?tx ! nat S)"
    by (simp add: charAt_def)
  ultimately have first: "\<not> isWhiteSpace (hd (getText res))"
    using b(3) by (simp add: testWhiteSpace_def)
  from b(1,2) lt have len: "length (getText res) = nat (E - S)"
    unfolding eq by simp
  from ne have "last (getText res) = getText res ! (nat (E - S) - 1)"
    by (simp add: last_conv_nth len)
  also from n S have "\<dots> = ?tx ! (nat S + (nat (E - S) - 1))"
    unfolding eq by simp
  finally have "last (getText res) = ?tx ! nat (E - 1)"
    unfolding E .
  moreover from b(1) lt E' have "charAt ?tx (E - 1) = Some (?tx ! nat (E - 1))"
    by (simp add: charAt_def)
  ultimately have final: "\<not> isWhiteSpace (last (getText res))"
    using b(4) by (simp add: testWhiteSpace_def)
  from ne first final r eq show ?thesis by blast
qed

theorem boundary_stripped_witness:
  "getText demoSection \<noteq> [] \<and>
   \<not> isWhiteSpace (hd (getText demoSection)) \<and> \<not> isWhiteSpace (last (getText demoSection)) \<and>
   getText demoSection = take 8 (drop 3 (getText demoSource))"
proof -
  from boundary_stripped [OF demo_deref demo_result] demo_range
  show ?thesis by auto
qed

end
